theory Spec2Isabelle
  imports Main
begin

section \<open>The column layout of pls (src/pls/table.py)\<close>

text \<open>
  The module reads four process-wide objects: \<open>args\<close> (the parsed command line),
  \<open>sys.platform\<close>, \<open>state\<close> and its own \<open>column_spec_map\<close>. They are gathered in the
  record \<open>env\<close>, which every function of the model takes as its first argument.
\<close>

subsection \<open>Data\<close>

text \<open>
  Modelled from the spec: the enum \<open>pls.enums.icon_type.IconType\<close> is imported by
  table.py but declared elsewhere; the code only compares it with \<open>IconType.NONE\<close>, and the
  spec gives the icon display mode as "none vs. enabled".
\<close>

datatype IconType = NONE | ENABLED

text \<open>
  \<open>args.details\<close> is tested for truthiness, for \<open>is not None\<close> and with \<open>in\<close> against
  column keys: an optional list of detail tokens. \<open>args.export\<close> is an optional path.
\<close>

record env =
  args_details :: "string list option"
  args_icon :: IconType
  args_no_align :: bool
  args_export :: "string option"
  platform :: string
  is_git_managed :: bool

datatype error = TypeError

record Attrs =
  justify :: "string option"
  width :: "int option"

record ColumnSpec =
  name :: "string option"
  attrs :: "Attrs option"

text \<open>A node carries an optional mapping from column key to the rendered cell.\<close>

record Node =
  table_row :: "(string \<rightharpoonup> string) option"

text \<open>
  The table of the rendering library, as far as table.py drives it: the constructor's
  settings, the columns declared by \<open>add_column\<close> and the rows appended by \<open>add_row\<close>.
\<close>

record Column =
  col_header :: string
  col_justify :: string
  col_width :: "int option"

record Table =
  padding :: "nat \<times> nat \<times> nat \<times> nat"
  box :: "string option"
  show_header :: bool
  header_style :: string
  columns :: "Column list"
  rows :: "string list list"

subsection \<open>The registry\<close>

definition spec_of :: "string \<Rightarrow> ColumnSpec" where
  "spec_of n = \<lparr>name = Some n, attrs = None\<rparr>"

definition column_spec_map :: "env \<Rightarrow> (string \<times> ColumnSpec) list" where
  "column_spec_map e =
     [(''spacer'', spec_of '' ''),
      (''inode'', spec_of ''inode''),
      (''links'', \<lparr>name = Some ''Link#'',
                   attrs = Some \<lparr>justify = Some ''right'', width = None\<rparr>\<rparr>),
      (''type'', spec_of ''''),
      (''perms'', spec_of ''Permissions''),
      (''user'', spec_of ''User''),
      (''group'', spec_of ''Group''),
      (''size'', \<lparr>name = Some ''Size'',
                  attrs = Some \<lparr>justify = Some ''right'', width = None\<rparr>\<rparr>),
      (''ctime'', spec_of ''Created at''),
      (''mtime'', spec_of ''Modified at''),
      (''atime'', spec_of ''Accessed at''),
      (''git'', spec_of ''Git''),
      (''icon'', \<lparr>name = Some '''',
                  attrs = Some \<lparr>justify = None, width = Some 2\<rparr>\<rparr>),
      (''name'', spec_of (if args_no_align e then ''Name'' else '' Name''))]"

subsection \<open>The selector\<close>

text \<open>Python's truth value of \<open>args.details\<close>: neither \<open>None\<close> nor empty.\<close>

definition details_truthy :: "env \<Rightarrow> bool" where
  "details_truthy e = (case args_details e of None \<Rightarrow> False | Some ds \<Rightarrow> ds \<noteq> [])"

text \<open>\<open>x in None\<close> raises TypeError.\<close>

definition column_in_details :: "env \<Rightarrow> string \<Rightarrow> error + bool" where
  "column_in_details e col_name =
     (case args_details e of
        None \<Rightarrow> Inl TypeError
      | Some ds \<Rightarrow> Inr (col_name \<in> set ds \<or> ''+'' \<in> set ds))"

text \<open>The comprehension \<open>[col for col in col_group if column_in_details(col)]\<close>.\<close>

fun filter_group :: "env \<Rightarrow> string list \<Rightarrow> error + string list" where
  "filter_group e [] = Inr []"
| "filter_group e (col # cols) =
     (case column_in_details e col of
        Inl err \<Rightarrow> Inl err
      | Inr b \<Rightarrow>
          (case filter_group e cols of
             Inl err \<Rightarrow> Inl err
           | Inr r \<Rightarrow> Inr (if b then col # r else r)))"

text \<open>The loop over \<open>col_groups\<close>, appending each filtered group to the selection.\<close>

fun filter_groups :: "env \<Rightarrow> string list list \<Rightarrow> string list list \<Rightarrow> error + string list list" where
  "filter_groups e [] selected = Inr selected"
| "filter_groups e (col_group # col_groups) selected =
     (case filter_group e col_group of
        Inl err \<Rightarrow> Inl err
      | Inr filtered_group \<Rightarrow> filter_groups e col_groups (selected @ [filtered_group]))"

text \<open>\<open>col_groups.insert(2, ["user", "group"])\<close> and \<open>col_groups.append(["git"])\<close>.\<close>

definition col_groups :: "env \<Rightarrow> string list list" where
  "col_groups e =
     (let gs0 = [[''inode'', ''links''], [''type'', ''perms''], [''size''],
                 [''ctime'', ''mtime'', ''atime'']];
          gs1 = (if platform e \<noteq> ''win32''
                 then take 2 gs0 @ [[''user'', ''group'']] @ drop 2 gs0 else gs0)
      in if is_git_managed e then gs1 @ [[''git'']] else gs1)"

definition name_group :: "env \<Rightarrow> string list" where
  "name_group e = (if args_icon e \<noteq> NONE then ''icon'' # [''name''] else [''name''])"

text \<open>
  The flattening loop. \<open>n\<close> is \<open>len(selected_col_groups)\<close>, \<open>index\<close> the position given
  by \<open>enumerate\<close>; \<open>n - 1\<close> is computed on Python integers.
\<close>

fun flatten_cols :: "nat \<Rightarrow> nat \<Rightarrow> string list list \<Rightarrow> string list \<Rightarrow> string list" where
  "flatten_cols n index [] flattened_cols = flattened_cols"
| "flatten_cols n index (col_group # rest) flattened_cols =
     (if length col_group = 0 then flatten_cols n (Suc index) rest flattened_cols
      else flatten_cols n (Suc index) rest
             (flattened_cols @
                (if int index \<noteq> int n - 1 then col_group @ [''spacer''] else col_group)))"

definition selected_col_groups :: "env \<Rightarrow> error + string list list" where
  "selected_col_groups e =
     (case (if details_truthy e then filter_groups e (col_groups e) [] else Inr []) of
        Inl err \<Rightarrow> Inl err
      | Inr selected \<Rightarrow> Inr (selected @ [name_group e]))"

definition get_columns :: "env \<Rightarrow> error + string list" where
  "get_columns e =
     (case selected_col_groups e of
        Inl err \<Rightarrow> Inl err
      | Inr selected \<Rightarrow> Inr (flatten_cols (length selected) 0 selected []))"

subsection \<open>Table assembly and output\<close>

text \<open>\<open>col.get("attrs", {})\<close>: no attribute given.\<close>

definition empty_attrs :: Attrs where
  "empty_attrs = \<lparr>justify = None, width = None\<rparr>"

definition new_table :: "bool \<Rightarrow> Table" where
  "new_table sh = \<lparr>padding = (0, 1, 0, 0), box = None, show_header = sh,
                    header_style = ''underline'', columns = [], rows = []\<rparr>"

text \<open>
  \<open>table.add_column(header, **attrs)\<close> appends a column with the given header; a
  missing \<open>justify\<close> is the library's default \<open>left\<close>, a missing \<open>width\<close> is none.
\<close>

definition make_column :: "string \<Rightarrow> Attrs \<Rightarrow> Column" where
  "make_column h a =
     \<lparr>col_header = h,
      col_justify = (case justify a of None \<Rightarrow> ''left'' | Some j \<Rightarrow> j),
      col_width = width a\<rparr>"

definition add_column :: "string \<Rightarrow> Attrs \<Rightarrow> Table \<Rightarrow> Table" where
  "add_column h a t = t\<lparr>columns := columns t @ [make_column h a]\<rparr>"

text \<open>\<open>table.add_row(*cells)\<close> appends the row of cells it is given.\<close>

definition add_row :: "string list \<Rightarrow> Table \<Rightarrow> Table" where
  "add_row cells t = t\<lparr>rows := rows t @ [cells]\<rparr>"

text \<open>
  The loop of \<open>get_table\<close> over the keys, for a registry \<open>reg\<close>: a key whose lookup is
  \<open>None\<close> adds nothing.
\<close>

fun add_columns :: "(string \<times> ColumnSpec) list \<Rightarrow> string list \<Rightarrow> Table \<Rightarrow> Table" where
  "add_columns reg [] table = table"
| "add_columns reg (col_key # keys) table =
     (case map_of reg col_key of
        None \<Rightarrow> add_columns reg keys table
      | Some col \<Rightarrow>
          add_columns reg keys
            (add_column (case name col of None \<Rightarrow> '''' | Some n \<Rightarrow> n)
                        (case attrs col of None \<Rightarrow> empty_attrs | Some a \<Rightarrow> a) table))"

text \<open>
  \<open>Table(padding=(0, 1, 0, 0), box=None, show_header=args.details is not None, ...)\<close>,
  then one \<open>add_column\<close> per key of \<open>get_columns()\<close> found in the registry.
\<close>

definition get_table :: "env \<Rightarrow> error + Table" where
  "get_table e =
     (let table = new_table (args_details e \<noteq> None)
      in case get_columns e of
           Inl err \<Rightarrow> Inl err
         | Inr cols \<Rightarrow> Inr (add_columns (column_spec_map e) cols table))"

text \<open>\<open>data.get(col, "")\<close>.\<close>

definition dict_get :: "(string \<rightharpoonup> string) \<Rightarrow> string \<Rightarrow> string \<Rightarrow> string" where
  "dict_get d k dflt = (case d k of None \<Rightarrow> dflt | Some v \<Rightarrow> v)"

text \<open>
  The loop over the nodes: a node without row data adds no row; otherwise one cell per key
  of \<open>get_columns()\<close>, in order.
\<close>

fun add_rows :: "env \<Rightarrow> Node list \<Rightarrow> Table \<Rightarrow> error + Table" where
  "add_rows e [] table = Inr table"
| "add_rows e (node # all_nodes) table =
     (case table_row node of
        None \<Rightarrow> add_rows e all_nodes table
      | Some data \<Rightarrow>
          (case get_columns e of
             Inl err \<Rightarrow> Inl err
           | Inr cols \<Rightarrow>
               add_rows e all_nodes (add_row (map (\<lambda>col. dict_get data col '''') cols) table)))"

text \<open>
  \<open>write_output\<close> up to \<open>console.print(table)\<close>: the result is the table handed to the
  console.
\<close>

definition write_output :: "env \<Rightarrow> Node list \<Rightarrow> error + Table" where
  "write_output e all_nodes =
     (case get_table e of
        Inl err \<Rightarrow> Inl err
      | Inr table \<Rightarrow> add_rows e all_nodes table)"

subsection \<open>The selector on a store of list objects\<close>

text \<open>
  The selector builds its groups as list objects and changes them in place
  (\<open>name_group.insert(0, "icon")\<close>, \<open>col_group.append("spacer")\<close>). Here the list
  objects of the process live in a store, addressed by their index; a list of groups is a
  list of addresses. \<open>registry\<close> is the module's \<open>column_spec_map\<close> object.
\<close>

record world =
  lists :: "string list list"
  registry :: "(string \<times> ColumnSpec) list"

text \<open>A list display allocates a new object; a display of lists allocates each inner list.\<close>

definition new_list :: "string list \<Rightarrow> world \<Rightarrow> nat \<times> world" where
  "new_list xs w = (length (lists w), w\<lparr>lists := lists w @ [xs]\<rparr>)"

fun new_lists :: "string list list \<Rightarrow> world \<Rightarrow> nat list \<times> world" where
  "new_lists [] w = ([], w)"
| "new_lists (xs # xss) w =
     (case new_list xs w of (a, w1) \<Rightarrow>
        (case new_lists xss w1 of (as, w2) \<Rightarrow> (a # as, w2)))"

text \<open>\<open>xs.append(x)\<close> and \<open>xs.insert(0, x)\<close> on the object at address \<open>a\<close>.\<close>

definition list_append :: "nat \<Rightarrow> string \<Rightarrow> world \<Rightarrow> world" where
  "list_append a x w = w\<lparr>lists := (lists w)[a := lists w ! a @ [x]]\<rparr>"

definition list_insert0 :: "nat \<Rightarrow> string \<Rightarrow> world \<Rightarrow> world" where
  "list_insert0 a x w = w\<lparr>lists := (lists w)[a := x # lists w ! a]\<rparr>"

text \<open>The candidate groups: four literals, then the platform and version-control groups.\<close>

definition col_groups_st :: "env \<Rightarrow> world \<Rightarrow> nat list \<times> world" where
  "col_groups_st e w =
     (case new_lists [[''inode'', ''links''], [''type'', ''perms''], [''size''],
                      [''ctime'', ''mtime'', ''atime'']] w of (gs0, w1) \<Rightarrow>
        (case (if platform e \<noteq> ''win32''
               then (case new_list [''user'', ''group''] w1 of (a, w2) \<Rightarrow>
                       (take 2 gs0 @ [a] @ drop 2 gs0, w2))
               else (gs0, w1)) of (gs1, w2) \<Rightarrow>
           (if is_git_managed e
            then (case new_list [''git''] w2 of (a, w3) \<Rightarrow> (gs1 @ [a], w3))
            else (gs1, w2))))"

text \<open>The comprehension builds a new list for every group it filters.\<close>

fun filter_groups_st :: "env \<Rightarrow> nat list \<Rightarrow> nat list \<Rightarrow> world \<Rightarrow> error + nat list \<times> world" where
  "filter_groups_st e [] selected w = Inr (selected, w)"
| "filter_groups_st e (col_group # rest) selected w =
     (case filter_group e (lists w ! col_group) of
        Inl err \<Rightarrow> Inl err
      | Inr filtered_group \<Rightarrow>
          (case new_list filtered_group w of (a, w1) \<Rightarrow>
             filter_groups_st e rest (selected @ [a]) w1))"

definition name_group_st :: "env \<Rightarrow> world \<Rightarrow> nat \<times> world" where
  "name_group_st e w =
     (case new_list [''name''] w of (a, w1) \<Rightarrow>
        (a, if args_icon e \<noteq> NONE then list_insert0 a ''icon'' w1 else w1))"

text \<open>The flattening loop appends the spacer to the group object itself, then copies it.\<close>

fun flatten_cols_st :: "nat \<Rightarrow> nat \<Rightarrow> nat list \<Rightarrow> string list \<Rightarrow> world \<Rightarrow> string list \<times> world" where
  "flatten_cols_st n index [] flattened_cols w = (flattened_cols, w)"
| "flatten_cols_st n index (col_group # rest) flattened_cols w =
     (if length (lists w ! col_group) = 0 then flatten_cols_st n (Suc index) rest flattened_cols w
      else (let w1 = (if int index \<noteq> int n - 1 then list_append col_group ''spacer'' w else w)
            in flatten_cols_st n (Suc index) rest (flattened_cols @ lists w1 ! col_group) w1))"

definition get_columns_st :: "env \<Rightarrow> world \<Rightarrow> error + string list \<times> world" where
  "get_columns_st e w =
     (case (if details_truthy e
            then (case col_groups_st e w of (gs, w1) \<Rightarrow> filter_groups_st e gs [] w1)
            else Inr ([], w)) of
        Inl err \<Rightarrow> Inl err
      | Inr (selected, w2) \<Rightarrow>
          (case name_group_st e w2 of (ng, w3) \<Rightarrow>
             Inr (flatten_cols_st (length (selected @ [ng])) 0 (selected @ [ng]) [] w3)))"

subsection \<open>The selection in closed form\<close>

text \<open>
  The detail filter as a predicate on a present selection, the filtered detail groups of
  a configuration, and a run of groups each followed by one spacer.
\<close>

definition requested :: "string list \<Rightarrow> string \<Rightarrow> bool" where
  "requested ds c = (c \<in> set ds \<or> ''+'' \<in> set ds)"

definition detail_groups :: "env \<Rightarrow> string list list" where
  "detail_groups e =
     (case args_details e of
        None \<Rightarrow> []
      | Some ds \<Rightarrow> if ds = [] then [] else map (filter (requested ds)) (col_groups e))"

definition with_spacers :: "string list list \<Rightarrow> string list" where
  "with_spacers gs = concat (map (\<lambda>g. g @ [''spacer'']) gs)"

text \<open>
  The spacer rule in the words of the specification: one spacer between consecutive
  groups, none before the first and none after the last.
\<close>

fun join_with_spacer :: "string list list \<Rightarrow> string list" where
  "join_with_spacer [] = []"
| "join_with_spacer [g] = g"
| "join_with_spacer (g # g' # gs) = g @ [''spacer''] @ join_with_spacer (g' # gs)"

definition no_spacer_pair :: "string \<Rightarrow> string \<Rightarrow> bool" where
  "no_spacer_pair a b = (\<not> (a = ''spacer'' \<and> b = ''spacer''))"

text \<open>The column declared for a registry entry: \<open>col.get("name", "")\<close> with its attributes.\<close>

definition spec_column :: "ColumnSpec \<Rightarrow> Column" where
  "spec_column col =
     make_column (case name col of None \<Rightarrow> '''' | Some n \<Rightarrow> n)
                 (case attrs col of None \<Rightarrow> empty_attrs | Some a \<Rightarrow> a)"

text \<open>The keys written in the registry literal.\<close>

definition all_keys :: "string set" where
  "all_keys = {''spacer'', ''inode'', ''links'', ''type'', ''perms'', ''user'', ''group'',
               ''size'', ''ctime'', ''mtime'', ''atime'', ''git'', ''icon'', ''name''}"

text \<open>Configurations for concrete runs: detail selection, icon mode, platform, version control.\<close>

definition config :: "string list option \<Rightarrow> IconType \<Rightarrow> string \<Rightarrow> bool \<Rightarrow> env" where
  "config ds ic pf git =
     \<lparr>args_details = ds, args_icon = ic, args_no_align = False, args_export = None,
      platform = pf, is_git_managed = git\<rparr>"

text \<open>The objects allocated for the candidate groups, in allocation order.\<close>

definition col_groups_ext :: "env \<Rightarrow> string list list" where
  "col_groups_ext e =
     [[''inode'', ''links''], [''type'', ''perms''], [''size''], [''ctime'', ''mtime'', ''atime'']] @
     (if platform e \<noteq> ''win32'' then [[''user'', ''group'']] else []) @
     (if is_git_managed e then [[''git'']] else [])"

section \<open>Properties\<close>

subsection \<open>The selector computes the closed form\<close>

lemma filter_group_requested:
  "args_details e = Some ds \<Longrightarrow> filter_group e g = Inr (filter (requested ds) g)"
  by (induction g) (simp_all add: column_in_details_def requested_def)

lemma filter_groups_requested:
  "args_details e = Some ds \<Longrightarrow>
   filter_groups e gs sel = Inr (sel @ map (filter (requested ds)) gs)"
  by (induction gs arbitrary: sel) (simp_all add: filter_group_requested)

lemma selected_col_groups_eq:
  "selected_col_groups e = Inr (detail_groups e @ [name_group e])"
  by (cases "args_details e")
     (simp_all add: selected_col_groups_def details_truthy_def detail_groups_def
        filter_groups_requested)

lemma flatten_cols_inner:
  "index + length gs < n \<Longrightarrow>
   flatten_cols n index gs acc = acc @ with_spacers (filter (\<lambda>g. g \<noteq> []) gs)"
  by (induction gs arbitrary: index acc) (auto simp: with_spacers_def)

lemma flatten_cols_append:
  "flatten_cols n index (xs @ ys) acc =
   flatten_cols n (index + length xs) ys (flatten_cols n index xs acc)"
  by (induction xs arbitrary: index acc) auto

lemma flatten_cols_selected:
  "last_group \<noteq> [] \<Longrightarrow>
   flatten_cols (length (gs @ [last_group])) 0 (gs @ [last_group]) [] =
   with_spacers (filter (\<lambda>g. g \<noteq> []) gs) @ last_group"
  by (simp add: flatten_cols_append flatten_cols_inner)

lemma name_group_nonempty: "name_group e \<noteq> []"
  by (simp add: name_group_def)

lemma get_columns_eq:
  "get_columns e =
   Inr (with_spacers (filter (\<lambda>g. g \<noteq> []) (detail_groups e)) @ name_group e)"
  unfolding get_columns_def selected_col_groups_eq
  using flatten_cols_selected [where last_group = "name_group e" and gs = "detail_groups e"]
    name_group_nonempty [of e]
  by simp

subsection \<open>Spacers, keys, columns and rows\<close>

lemmas eval_simps =
  config_def get_columns_def selected_col_groups_def details_truthy_def col_groups_def
  name_group_def column_in_details_def Let_def

lemma with_spacers_join:
  "with_spacers gs @ l = join_with_spacer (gs @ [l])"
  by (induction gs rule: join_with_spacer.induct) (simp_all add: with_spacers_def)

lemma col_groups_no_spacer: "g \<in> set (col_groups e) \<Longrightarrow> ''spacer'' \<notin> set g"
  by (auto simp: col_groups_def Let_def split: if_splits)

lemma detail_groups_no_spacer: "g \<in> set (detail_groups e) \<Longrightarrow> ''spacer'' \<notin> set g"
  by (auto simp: detail_groups_def dest: col_groups_no_spacer split: option.splits if_splits)

lemma name_group_no_spacer: "''spacer'' \<notin> set (name_group e)"
  by (simp add: name_group_def)

lemma hd_not_member: "g \<noteq> [] \<Longrightarrow> x \<notin> set g \<Longrightarrow> hd g \<noteq> x"
  by (cases g) auto

lemma last_not_member: "g \<noteq> [] \<Longrightarrow> x \<notin> set g \<Longrightarrow> last g \<noteq> x"
  using last_in_set [of g] by auto

lemma join_nonempty:
  "gs \<noteq> [] \<Longrightarrow> \<forall>g\<in>set gs. g \<noteq> [] \<Longrightarrow> join_with_spacer gs \<noteq> []"
  by (induction gs rule: join_with_spacer.induct) simp_all

lemma join_hd:
  "gs \<noteq> [] \<Longrightarrow> \<forall>g\<in>set gs. g \<noteq> [] \<and> ''spacer'' \<notin> set g \<Longrightarrow>
   hd (join_with_spacer gs) \<noteq> ''spacer''"
  by (induction gs rule: join_with_spacer.induct) (auto simp: hd_append hd_not_member)

lemma join_last:
  "gs \<noteq> [] \<Longrightarrow> \<forall>g\<in>set gs. g \<noteq> [] \<and> ''spacer'' \<notin> set g \<Longrightarrow>
   last (join_with_spacer gs) \<noteq> ''spacer''"
proof (induction gs rule: join_with_spacer.induct)
  case (2 g)
  then show ?case by (simp add: last_not_member)
next
  case (3 g g' gs)
  then have "join_with_spacer (g' # gs) \<noteq> []" by (intro join_nonempty) auto
  with 3 show ?case by simp
qed simp

lemma successively_group_then:
  "''spacer'' \<notin> set g \<Longrightarrow> rest \<noteq> [] \<Longrightarrow> hd rest \<noteq> ''spacer'' \<Longrightarrow>
   successively no_spacer_pair rest \<Longrightarrow>
   successively no_spacer_pair (g @ ''spacer'' # rest)"
  by (induction g) (auto simp: successively_Cons no_spacer_pair_def)

lemma successively_group:
  "''spacer'' \<notin> set g \<Longrightarrow> successively no_spacer_pair g"
  by (induction g) (auto simp: successively_Cons no_spacer_pair_def)

lemma join_successively:
  "\<forall>g\<in>set gs. g \<noteq> [] \<and> ''spacer'' \<notin> set g \<Longrightarrow>
   successively no_spacer_pair (join_with_spacer gs)"
proof (induction gs rule: join_with_spacer.induct)
  case (3 g g' gs)
  have ne: "join_with_spacer (g' # gs) \<noteq> []" using 3 by (intro join_nonempty) auto
  have h: "hd (join_with_spacer (g' # gs)) \<noteq> ''spacer''" using 3 by (intro join_hd) auto
  show ?case using 3 ne h by (simp add: successively_group_then)
qed (simp_all add: successively_group)

lemma successively_nth:
  "successively P xs \<Longrightarrow> Suc i < length xs \<Longrightarrow> P (xs ! i) (xs ! Suc i)"
proof (induction P xs arbitrary: i rule: successively.induct)
  case (3 P x y xs)
  then show ?case by (cases i) auto
qed simp_all


lemma with_spacers_set:
  "set (with_spacers gs) = (if gs = [] then {} else insert ''spacer'' (\<Union>g\<in>set gs. set g))"
  by (induction gs) (auto simp: with_spacers_def)

lemma in_with_spacers_kept:
  "x \<noteq> ''spacer'' \<Longrightarrow>
   (x \<in> set (with_spacers (filter (\<lambda>g. g \<noteq> []) gs))) = (\<exists>g\<in>set gs. x \<in> set g)"
  unfolding with_spacers_def by auto

lemma add_columns_columns:
  "columns (add_columns reg keys t) =
   columns t @ List.map_filter (\<lambda>k. map_option spec_column (map_of reg k)) keys"
  by (induction keys arbitrary: t)
     (simp_all add: List.map_filter_simps add_column_def spec_column_def split: option.splits)


lemma add_columns_rows: "rows (add_columns reg keys t) = rows t"
  by (induction keys arbitrary: t) (simp_all add: add_column_def split: option.splits)

lemma map_filter_all:
  "\<forall>k\<in>set keys. f k \<noteq> None \<Longrightarrow> List.map_filter f keys = map (\<lambda>k. the (f k)) keys"
  by (induction keys) (auto simp: List.map_filter_simps)

lemma registry_keys: "fst ` set (column_spec_map e) = all_keys"
  by (simp add: column_spec_map_def all_keys_def)

lemma registry_lookup: "k \<in> all_keys \<Longrightarrow> map_of (column_spec_map e) k \<noteq> None"
  using registry_keys [of e] by (metis map_of_eq_None_iff)

lemma col_groups_keys: "g \<in> set (col_groups e) \<Longrightarrow> set g \<subseteq> all_keys"
  by (auto simp: col_groups_def Let_def all_keys_def split: if_splits)

lemma detail_groups_keys: "g \<in> set (detail_groups e) \<Longrightarrow> set g \<subseteq> all_keys"
  by (auto simp: detail_groups_def dest!: col_groups_keys split: option.splits if_splits)

lemma name_group_keys: "set (name_group e) \<subseteq> all_keys"
  by (simp add: name_group_def all_keys_def)

lemma get_columns_keys:
  "get_columns e = Inr cols \<Longrightarrow> set cols \<subseteq> all_keys"
proof -
  assume "get_columns e = Inr cols"
  then have c: "cols = with_spacers (filter (\<lambda>g. g \<noteq> []) (detail_groups e)) @ name_group e"
    by (simp add: get_columns_eq)
  have "''spacer'' \<in> all_keys" by (simp add: all_keys_def)
  then show ?thesis
    unfolding c using detail_groups_keys [of _ e] name_group_keys [of e]
    by (auto simp: with_spacers_set split: if_splits)
qed

lemma add_rows_eq:
  "get_columns e = Inr cols \<Longrightarrow>
   add_rows e nodes t =
     Inr (t\<lparr>rows := rows t @
            map (\<lambda>data. map (\<lambda>col. dict_get data col '''') cols)
                (List.map_filter table_row nodes)\<rparr>)"
  by (induction nodes arbitrary: t)
     (simp_all add: List.map_filter_simps add_row_def split: option.splits)

lemma git_in_col_groups: "(\<exists>g\<in>set (col_groups e). ''git'' \<in> set g) = is_git_managed e"
  by (auto simp: col_groups_def Let_def)

lemma git_in_detail_groups:
  "(\<exists>g\<in>set (detail_groups e). ''git'' \<in> set g) =
   (details_truthy e \<and> column_in_details e ''git'' = Inr True \<and> is_git_managed e)"
proof (cases "args_details e")
  case None
  then show ?thesis by (simp add: detail_groups_def details_truthy_def)
next
  case (Some ds)
  show ?thesis
  proof (cases "ds = []")
    case True
    with Some show ?thesis by (simp add: detail_groups_def details_truthy_def)
  next
    case False
    have "(\<exists>g\<in>set (detail_groups e). ''git'' \<in> set g) =
          (requested ds ''git'' \<and> (\<exists>g\<in>set (col_groups e). ''git'' \<in> set g))"
      using Some False by (auto simp: detail_groups_def)
    then show ?thesis
      using Some False
      by (simp add: git_in_col_groups details_truthy_def column_in_details_def requested_def)
  qed
qed

subsection \<open>The store model agrees with the selector\<close>

lemma new_lists_eq:
  "new_lists xss w =
   ([length (lists w) ..< length (lists w) + length xss], w\<lparr>lists := lists w @ xss\<rparr>)"
proof (induction xss arbitrary: w)
  case Nil
  show ?case by simp
next
  case (Cons xs xss)
  have "length (lists w) < length (lists w) + length (xs # xss)" by simp
  from upt_conv_Cons [OF this]
  have eq: "[length (lists w) ..< length (lists w) + length (xs # xss)] =
        length (lists w) # [Suc (length (lists w)) ..< length (lists w) + length (xs # xss)]" .
  show ?case unfolding eq by (simp add: new_list_def Cons del: upt_Suc)
qed

lemma col_groups_st_world:
  "snd (col_groups_st e w) = w\<lparr>lists := lists w @ col_groups_ext e\<rparr>"
  by (simp add: col_groups_st_def new_lists_eq new_list_def col_groups_ext_def)

lemma col_groups_st_read:
  "map ((!) (lists w @ col_groups_ext e)) (fst (col_groups_st e w)) = col_groups e"
  by (simp add: col_groups_st_def new_lists_eq new_list_def col_groups_ext_def col_groups_def
      Let_def upt_conv_Cons nth_append)

lemma col_groups_st_bound:
  "g \<in> set (fst (col_groups_st e w)) \<Longrightarrow> g < length (lists w @ col_groups_ext e)"
  by (auto simp: col_groups_st_def new_lists_eq new_list_def col_groups_ext_def
      upt_conv_Cons split: if_splits dest: in_set_takeD in_set_dropD)


lemma filter_groups_st_eq:
  "args_details e = Some ds \<Longrightarrow> \<forall>g\<in>set gs. g < length (lists w) \<Longrightarrow>
   filter_groups_st e gs sel w =
     Inr (sel @ [length (lists w) ..< length (lists w) + length gs],
          w\<lparr>lists := lists w @ map (\<lambda>g. filter (requested ds) (lists w ! g)) gs\<rparr>)"
proof (induction gs arbitrary: sel w)
  case Nil
  show ?case by simp
next
  case (Cons g gs)
  let ?fg = "filter (requested ds) (lists w ! g)"
  let ?w1 = "w\<lparr>lists := lists w @ [?fg]\<rparr>"
  have b: "\<forall>g\<in>set gs. g < length (lists ?w1)" using Cons.prems(2) by auto
  have rd: "map (\<lambda>g. filter (requested ds) (lists ?w1 ! g)) gs =
            map (\<lambda>g. filter (requested ds) (lists w ! g)) gs"
    using Cons.prems(2) by (simp add: nth_append)
  have "length (lists w) < length (lists w) + length (g # gs)" by simp
  from upt_conv_Cons [OF this]
  have eq: "[length (lists w) ..< length (lists w) + length (g # gs)] =
        length (lists w) # [Suc (length (lists w)) ..< length (lists w) + length (g # gs)]" .
  show ?case
    unfolding eq
    using Cons.IH [OF Cons.prems(1) b, of "sel @ [length (lists w)]"] rd
    by (simp add: filter_group_requested [OF Cons.prems(1)] new_list_def del: upt_Suc)
qed

lemma flatten_cols_st_eq:
  "distinct gs \<Longrightarrow> \<forall>g\<in>set gs. g < length (lists w) \<Longrightarrow>
   \<exists>w'. flatten_cols_st n index gs acc w =
          (flatten_cols n index (map ((!) (lists w)) gs) acc, w') \<and>
        registry w' = registry w \<and>
        length (lists w') = length (lists w) \<and>
        (\<forall>a. a \<notin> set gs \<longrightarrow> lists w' ! a = lists w ! a)"
proof (induction gs arbitrary: index acc w)
  case Nil
  show ?case by simp
next
  case (Cons g gs)
  show ?case
  proof (cases "lists w ! g = []")
    case True
    from Cons.prems have d: "distinct gs" and b: "\<forall>g\<in>set gs. g < length (lists w)" by auto
    from Cons.IH [OF d b, of "Suc index" acc] True show ?thesis by auto
  next
    case False
    let ?w1 = "if int index \<noteq> int n - 1 then list_append g ''spacer'' w else w"
    from Cons.prems have d: "distinct gs" and g: "g \<notin> set gs" "g < length (lists w)" by auto
    have len: "length (lists ?w1) = length (lists w)" by (simp add: list_append_def)
    have b: "\<forall>g\<in>set gs. g < length (lists ?w1)" using Cons.prems(2) len by auto
    have reg: "registry ?w1 = registry w" by (simp add: list_append_def)
    have other: "\<And>a. a \<noteq> g \<Longrightarrow> lists ?w1 ! a = lists w ! a"
      by (simp add: list_append_def)
    have rd: "map ((!) (lists ?w1)) gs = map ((!) (lists w)) gs"
    proof (rule map_cong [OF refl])
      fix a assume "a \<in> set gs"
      with g(1) have "a \<noteq> g" by auto
      then show "lists ?w1 ! a = lists w ! a" by (rule other)
    qed
    have here: "lists ?w1 ! g =
        (if int index \<noteq> int n - 1 then lists w ! g @ [''spacer''] else lists w ! g)"
      using g(2) by (simp add: list_append_def)
    from Cons.IH [OF d b, of "Suc index" "acc @ lists ?w1 ! g"]
    obtain w' where w': "flatten_cols_st n (Suc index) gs (acc @ lists ?w1 ! g) ?w1 =
          (flatten_cols n (Suc index) (map ((!) (lists ?w1)) gs) (acc @ lists ?w1 ! g), w')"
        "registry w' = registry ?w1" "length (lists w') = length (lists ?w1)"
        "\<forall>a. a \<notin> set gs \<longrightarrow> lists w' ! a = lists ?w1 ! a"
      by blast
    have step: "flatten_cols_st n index (g # gs) acc w =
        flatten_cols_st n (Suc index) gs (acc @ lists ?w1 ! g) ?w1"
      using False by (simp add: Let_def)
    have pure: "flatten_cols n index (map ((!) (lists w)) (g # gs)) acc =
        flatten_cols n (Suc index) (map ((!) (lists w)) gs) (acc @ lists ?w1 ! g)"
      using False unfolding here by simp
    show ?thesis
      unfolding step pure w'(1) rd
      using w'(2,3,4) reg len other by auto
  qed
qed


lemma map_nth_append_upt:
  "map ((!) (xs @ ys)) [length xs ..< length xs + length ys] = ys"
  by (rule nth_equalityI) (simp_all add: nth_append)

lemma world_extends:
  fixes w w' :: world
  assumes "registry w' = registry w" and "length (lists w) \<le> length (lists w')"
    and "\<forall>a<length (lists w). lists w' ! a = lists w ! a"
  shows "\<exists>ext. w' = w\<lparr>lists := lists w @ ext\<rparr>"
proof -
  have "take (length (lists w)) (lists w') = lists w"
    using assms(2,3) by (intro nth_equalityI) simp_all
  then have "lists w' = lists w @ drop (length (lists w)) (lists w')"
    by (metis append_take_drop_id)
  then have "w' = w\<lparr>lists := lists w @ drop (length (lists w)) (lists w')\<rparr>"
    using assms(1) by (intro world.equality) simp_all
  then show ?thesis ..
qed

lemma select_groups_st:
  "\<exists>pre. (if details_truthy e
           then (case col_groups_st e w of (gs, w1) \<Rightarrow> filter_groups_st e gs [] w1)
           else Inr ([], w)) =
     Inr ([length (lists w @ pre) ..< length (lists w @ pre) + length (detail_groups e)],
          w\<lparr>lists := lists w @ pre @ detail_groups e\<rparr>)"
proof (cases "details_truthy e")
  case False
  then have "detail_groups e = []"
    by (simp add: detail_groups_def details_truthy_def split: option.splits)
  with False have "?thesis = (\<exists>pre::string list list. pre = [])" 
    by (auto intro: exI [of _ "[]"])
  then show ?thesis by simp
next
  case True
  then obtain ds where ds: "args_details e = Some ds" "ds \<noteq> []"
    by (auto simp: details_truthy_def split: option.splits)
  obtain gs w1 where st: "col_groups_st e w = (gs, w1)" by (cases "col_groups_st e w")
  let ?pre = "col_groups_ext e"
  have w1: "w1 = w\<lparr>lists := lists w @ ?pre\<rparr>"
    using col_groups_st_world [of e w] st by simp
  have rd: "map ((!) (lists w1)) gs = col_groups e"
    using col_groups_st_read [of w e] st w1 by simp
  have b: "\<forall>g\<in>set gs. g < length (lists w1)"
    using col_groups_st_bound [of _ e w] st w1 by simp
  have "map (\<lambda>g. filter (requested ds) (lists w1 ! g)) gs =
        map (filter (requested ds)) (map ((!) (lists w1)) gs)"
    by simp
  also have "\<dots> = detail_groups e"
    unfolding rd using ds by (simp add: detail_groups_def)
  finally have dg: "map (\<lambda>g. filter (requested ds) (lists w1 ! g)) gs = detail_groups e" .
  have len: "length gs = length (detail_groups e)"
    using arg_cong [OF dg, of length] by simp
  have "filter_groups_st e gs [] w1 =
     Inr ([length (lists w @ ?pre) ..< length (lists w @ ?pre) + length (detail_groups e)],
          w\<lparr>lists := lists w @ ?pre @ detail_groups e\<rparr>)"
    using filter_groups_st_eq [OF ds(1) b, of "[]"] unfolding dg len by (simp add: w1)
  with True st show ?thesis by auto
qed

lemma get_columns_st_eq:
  "\<exists>ext. get_columns_st e w =
     Inr (flatten_cols (length (detail_groups e @ [name_group e])) 0
            (detail_groups e @ [name_group e]) [],
          w\<lparr>lists := lists w @ ext\<rparr>)"
proof -
  from select_groups_st [of e w] obtain pre where
    sel: "(if details_truthy e
           then (case col_groups_st e w of (gs, w1) \<Rightarrow> filter_groups_st e gs [] w1)
           else Inr ([], w)) =
     Inr ([length (lists w @ pre) ..< length (lists w @ pre) + length (detail_groups e)],
          w\<lparr>lists := lists w @ pre @ detail_groups e\<rparr>)" ..
  let ?old = "lists w @ pre"
  let ?sel = "[length ?old ..< length ?old + length (detail_groups e)]"
  let ?groups = "detail_groups e @ [name_group e]"
  let ?w2 = "w\<lparr>lists := ?old @ detail_groups e\<rparr>"
  let ?ng = "length ?old + length (detail_groups e)"
  let ?w3 = "w\<lparr>lists := ?old @ ?groups\<rparr>"
  have ng: "name_group_st e ?w2 = (?ng, ?w3)"
    by (simp add: name_group_st_def new_list_def list_insert0_def name_group_def
        list_update_append nth_append)
  have addrs: "?sel @ [?ng] = [length ?old ..< length ?old + length ?groups]"
    by simp
  have run: "get_columns_st e w =
      Inr (flatten_cols_st (length ?groups) 0 [length ?old ..< length ?old + length ?groups] [] ?w3)"
    unfolding get_columns_st_def sel using ng addrs by simp
  have d: "distinct [length ?old ..< length ?old + length ?groups]" by simp
  have b: "\<forall>g\<in>set [length ?old ..< length ?old + length ?groups]. g < length (lists ?w3)"
    by simp
  have rd: "map ((!) (lists ?w3)) [length ?old ..< length ?old + length ?groups] = ?groups"
    using map_nth_append_upt [of ?old ?groups] by simp
  from flatten_cols_st_eq [OF d b, of "length ?groups" 0 "[]"] obtain w' where
    w': "flatten_cols_st (length ?groups) 0 [length ?old ..< length ?old + length ?groups] [] ?w3 =
          (flatten_cols (length ?groups) 0 ?groups [], w')"
      "registry w' = registry ?w3" "length (lists w') = length (lists ?w3)"
      "\<forall>a. a \<notin> set [length ?old ..< length ?old + length ?groups] \<longrightarrow>
           lists w' ! a = lists ?w3 ! a"
    unfolding rd by blast
  have "\<exists>ext. w' = w\<lparr>lists := lists w @ ext\<rparr>"
  proof (rule world_extends)
    show "registry w' = registry w" using w'(2) by simp
    show "length (lists w) \<le> length (lists w')" using w'(3) by simp
    show "\<forall>a<length (lists w). lists w' ! a = lists w ! a"
      using w'(4) by (simp add: nth_append)
  qed
  then show ?thesis unfolding run w'(1) by auto
qed

lemma git_requested_iff:
  "(details_truthy e \<and> column_in_details e ''git'' = Inr True) =
   (\<exists>ds. args_details e = Some ds \<and> ds \<noteq> [] \<and> (''git'' \<in> set ds \<or> ''+'' \<in> set ds))"
  by (auto simp: details_truthy_def column_in_details_def split: option.splits)

subsection \<open>The claims\<close>

text \<open>
  C1, as amended. With the wildcard token \<open>+\<close> in the detail selection, on a platform
  other than win32, outside version control and with icons disabled, the selector returns
  inode, links, spacer, type, perms, spacer, user, group, spacer, size, spacer, ctime,
  mtime, atime, spacer, name: \<open>insert(2, ...)\<close> puts the user and group columns after
  type and perms and immediately before size.
\<close>

theorem wildcard_columns:
  assumes "args_details e = Some ds" and "''+'' \<in> set ds"
    and "platform e \<noteq> ''win32''" and "\<not> is_git_managed e" and "args_icon e = NONE"
  shows "get_columns e =
     Inr [''inode'', ''links'', ''spacer'', ''type'', ''perms'', ''spacer'',
          ''user'', ''group'', ''spacer'', ''size'', ''spacer'',
          ''ctime'', ''mtime'', ''atime'', ''spacer'', ''name'']"
proof -
  from assms(2) have ne: "ds \<noteq> []" by auto
  have all: "requested ds = (\<lambda>c. True)"
    using assms(2) by (intro ext) (simp add: requested_def)
  have dg: "detail_groups e =
      [[''inode'', ''links''], [''type'', ''perms''], [''user'', ''group''], [''size''],
       [''ctime'', ''mtime'', ''atime'']]"
    using assms(1,3,4) ne by (simp add: detail_groups_def col_groups_def all Let_def)
  show ?thesis
    unfolding get_columns_eq dg using assms(5) by (simp add: with_spacers_def name_group_def)
qed

theorem wildcard_columns_witness:
  "args_details (config (Some [''+'']) NONE ''linux'' False) = Some [''+''] \<and>
   ''+'' \<in> set [''+''] \<and>
   platform (config (Some [''+'']) NONE ''linux'' False) \<noteq> ''win32'' \<and>
   \<not> is_git_managed (config (Some [''+'']) NONE ''linux'' False) \<and>
   args_icon (config (Some [''+'']) NONE ''linux'' False) = NONE \<and>
   get_columns (config (Some [''+'']) NONE ''linux'' False) =
     Inr [''inode'', ''links'', ''spacer'', ''type'', ''perms'', ''spacer'',
          ''user'', ''group'', ''spacer'', ''size'', ''spacer'',
          ''ctime'', ''mtime'', ''atime'', ''spacer'', ''name'']"
  using wildcard_columns [of "config (Some [''+'']) NONE ''linux'' False" "[''+'']"]
  by (simp add: config_def)

text \<open>
  C1 as stated fails: the sequence with user and group after size is not what the selector
  returns, neither for the wildcard token \<open>+\<close> nor for a token spelled \<open>all\<close>.
\<close>

theorem wildcard_columns_counterexample:
  "get_columns (config (Some [''+'']) NONE ''linux'' False) \<noteq>
     Inr [''inode'', ''links'', ''spacer'', ''type'', ''perms'', ''spacer'', ''size'',
          ''spacer'', ''user'', ''group'', ''spacer'', ''ctime'', ''mtime'', ''atime'',
          ''spacer'', ''name''] \<and>
   get_columns (config (Some [''all'']) NONE ''linux'' False) \<noteq>
     Inr [''inode'', ''links'', ''spacer'', ''type'', ''perms'', ''spacer'', ''size'',
          ''spacer'', ''user'', ''group'', ''spacer'', ''ctime'', ''mtime'', ''atime'',
          ''spacer'', ''name'']"
  by (simp add: eval_simps)

text \<open>
  C2, as amended. For a detail selection holding exactly the tokens size and perms, with
  icons disabled, the filter keeps perms and size only (type is not requested and is
  dropped), and the selector returns perms, spacer, size, spacer, name: one spacer between
  the two surviving groups and one before name.
\<close>

theorem size_perms_columns:
  assumes "args_details e = Some ds" and "set ds = {''size'', ''perms''}"
    and "args_icon e = NONE"
  shows "get_columns e = Inr [''perms'', ''spacer'', ''size'', ''spacer'', ''name'']"
proof -
  have ne: "ds \<noteq> []"
  proof
    assume "ds = []"
    with assms(2) show False by simp
  qed
  have req: "requested ds = (\<lambda>c. c = ''size'' \<or> c = ''perms'')"
    unfolding requested_def assms(2) by (rule ext) simp
  have dg: "filter (\<lambda>g. g \<noteq> []) (detail_groups e) = [[''perms''], [''size'']]"
    using assms(1) ne by (simp add: detail_groups_def col_groups_def req Let_def)
  show ?thesis
    unfolding get_columns_eq dg
    using assms(3) by (simp add: name_group_def with_spacers_def)
qed

theorem size_perms_columns_witness:
  "args_details (config (Some [''size'', ''perms'']) NONE ''linux'' False) =
     Some [''size'', ''perms''] \<and>
   set [''size'', ''perms''] = {''size'', ''perms''} \<and>
   args_icon (config (Some [''size'', ''perms'']) NONE ''linux'' False) = NONE \<and>
   get_columns (config (Some [''size'', ''perms'']) NONE ''linux'' False) =
     Inr [''perms'', ''spacer'', ''size'', ''spacer'', ''name'']"
  using size_perms_columns
    [of "config (Some [''size'', ''perms'']) NONE ''linux'' False" "[''size'', ''perms'']"]
  by (simp add: config_def)

text \<open>
  C2 as stated fails: for the selection size, perms the filtered type and perms group is
  \<open>[perms]\<close>, and type is not in the returned sequence.
\<close>

theorem size_perms_counterexample:
  "filter_group (config (Some [''size'', ''perms'']) NONE ''linux'' False) [''type'', ''perms'']
     = Inr [''perms''] \<and>
   get_columns (config (Some [''size'', ''perms'']) NONE ''linux'' False) =
     Inr [''perms'', ''spacer'', ''size'', ''spacer'', ''name''] \<and>
   ''type'' \<notin> set [''perms'', ''spacer'', ''size'', ''spacer'', ''name'']"
  by (simp add: eval_simps)



text \<open>
  C4. For every configuration the returned sequence is the retained (non-empty) groups
  joined by single spacers, and no group holds the spacer key itself; hence the sequence
  is not empty, neither its first nor its last key is a spacer, and no two adjacent keys
  are both spacers.
\<close>

theorem get_columns_spacers:
  "\<exists>sel cols. selected_col_groups e = Inr sel \<and> get_columns e = Inr cols \<and>
     cols = join_with_spacer (filter (\<lambda>g. g \<noteq> []) sel) \<and>
     (\<forall>g\<in>set sel. ''spacer'' \<notin> set g) \<and>
     cols \<noteq> [] \<and> hd cols \<noteq> ''spacer'' \<and> last cols \<noteq> ''spacer'' \<and>
     (\<forall>i. Suc i < length cols \<longrightarrow> \<not> (cols ! i = ''spacer'' \<and> cols ! Suc i = ''spacer''))"
proof -
  let ?sel = "detail_groups e @ [name_group e]"
  let ?kept = "filter (\<lambda>g. g \<noteq> []) ?sel"
  let ?cols = "join_with_spacer ?kept"
  have kept: "?kept = filter (\<lambda>g. g \<noteq> []) (detail_groups e) @ [name_group e]"
    by (simp add: name_group_nonempty)
  have cols: "get_columns e = Inr ?cols"
    unfolding kept get_columns_eq with_spacers_join ..
  have free: "\<forall>g\<in>set ?sel. ''spacer'' \<notin> set g"
    using detail_groups_no_spacer name_group_no_spacer by auto
  have ok: "\<forall>g\<in>set ?kept. g \<noteq> [] \<and> ''spacer'' \<notin> set g"
    using free by auto
  have ne: "?kept \<noteq> []" unfolding kept by simp
  have adj: "\<forall>i. Suc i < length ?cols \<longrightarrow>
      \<not> (?cols ! i = ''spacer'' \<and> ?cols ! Suc i = ''spacer'')"
  proof (intro allI impI)
    fix i assume "Suc i < length ?cols"
    with join_successively [OF ok] have "no_spacer_pair (?cols ! i) (?cols ! Suc i)"
      by (rule successively_nth)
    then show "\<not> (?cols ! i = ''spacer'' \<and> ?cols ! Suc i = ''spacer'')"
      by (simp add: no_spacer_pair_def)
  qed
  show ?thesis
    using selected_col_groups_eq [of e] cols free join_nonempty [OF ne] join_hd [OF ne ok]
      join_last [OF ne ok] adj ok
    by blast
qed

theorem get_columns_spacers_witness:
  "selected_col_groups (config (Some [''size'', ''perms'']) ENABLED ''win32'' False) =
     Inr [[], [''perms''], [''size''], [], [''icon'', ''name'']] \<and>
   get_columns (config (Some [''size'', ''perms'']) ENABLED ''win32'' False) =
     Inr [''perms'', ''spacer'', ''size'', ''spacer'', ''icon'', ''name''] \<and>
   join_with_spacer [[''perms''], [''size''], [''icon'', ''name'']] =
     [''perms'', ''spacer'', ''size'', ''spacer'', ''icon'', ''name'']"
  using get_columns_spacers [of "config (Some [''size'', ''perms'']) ENABLED ''win32'' False"]
  by (simp add: eval_simps)

text \<open>
  C5. With detail rendering disabled (the guard \<open>if args.details\<close> fails) the selector
  returns exactly name when icons are disabled and icon, name when they are enabled: no
  spacer and no detail column.
\<close>

theorem get_columns_details_disabled:
  "\<not> details_truthy e \<Longrightarrow>
   get_columns e = Inr (if args_icon e = NONE then [''name''] else [''icon'', ''name''])"
  by (simp add: get_columns_def selected_col_groups_def name_group_def)

theorem get_columns_details_disabled_witness:
  "\<not> details_truthy (config (Some []) ENABLED ''linux'' True) \<and>
   get_columns (config (Some []) ENABLED ''linux'' True) = Inr [''icon'', ''name''] \<and>
   \<not> details_truthy (config None NONE ''linux'' True) \<and>
   get_columns (config None NONE ''linux'' True) = Inr [''name'']"
  using get_columns_details_disabled [of "config (Some []) ENABLED ''linux'' True"]
    get_columns_details_disabled [of "config None NONE ''linux'' True"]
  by (simp add: config_def details_truthy_def)

text \<open>
  C6. The rows of the table written for a list of nodes are, for the nodes whose row data
  is present and in their order, one cell per selected key in the order of the keys: the
  value the row data gives the key, or the empty string where it gives none. Every row
  has as many cells as there are selected keys.
\<close>

theorem row_cells:
  "\<exists>cols t. get_columns e = Inr cols \<and> write_output e all_nodes = Inr t \<and>
     rows t = map (\<lambda>data. map (\<lambda>col. case data col of None \<Rightarrow> '''' | Some v \<Rightarrow> v) cols)
                  (List.map_filter table_row all_nodes) \<and>
     (\<forall>r\<in>set (rows t). length r = length cols) \<and>
     (\<forall>j<length (rows t). \<forall>i<length cols.
        rows t ! j ! i =
          (case (List.map_filter table_row all_nodes ! j) (cols ! i) of
             None \<Rightarrow> '''' | Some v \<Rightarrow> v))"
proof -
  obtain cols where cols: "get_columns e = Inr cols" by (simp add: get_columns_eq)
  let ?t0 = "add_columns (column_spec_map e) cols (new_table (args_details e \<noteq> None))"
  let ?present = "List.map_filter table_row all_nodes"
  let ?rows = "map (\<lambda>data. map (\<lambda>col. dict_get data col '''') cols) ?present"
  have t0: "get_table e = Inr ?t0" by (simp add: get_table_def cols)
  have r0: "rows ?t0 = []" by (simp add: add_columns_rows new_table_def)
  have out: "write_output e all_nodes = Inr (?t0\<lparr>rows := ?rows\<rparr>)"
    unfolding write_output_def t0 using add_rows_eq [OF cols, of all_nodes ?t0] r0 by simp
  have "rows (?t0\<lparr>rows := ?rows\<rparr>) =
      map (\<lambda>data. map (\<lambda>col. case data col of None \<Rightarrow> '''' | Some v \<Rightarrow> v) cols) ?present"
    by (simp add: dict_get_def)
  moreover have "\<forall>r\<in>set (rows (?t0\<lparr>rows := ?rows\<rparr>)). length r = length cols"
    by auto
  moreover have "\<forall>j<length (rows (?t0\<lparr>rows := ?rows\<rparr>)). \<forall>i<length cols.
        rows (?t0\<lparr>rows := ?rows\<rparr>) ! j ! i =
          (case (?present ! j) (cols ! i) of None \<Rightarrow> '''' | Some v \<Rightarrow> v)"
    by (simp add: dict_get_def)
  ultimately show ?thesis using cols out by blast
qed

theorem row_cells_witness:
  "get_columns (config (Some [''size'']) NONE ''linux'' False) =
     Inr [''size'', ''spacer'', ''name''] \<and>
   map_sum id rows
     (write_output (config (Some [''size'']) NONE ''linux'' False)
        [\<lparr>table_row = Some [''name'' \<mapsto> ''a.txt'']\<rparr>, \<lparr>table_row = None\<rparr>,
         \<lparr>table_row = Some [''size'' \<mapsto> ''4K'', ''name'' \<mapsto> ''b'']\<rparr>]) =
     Inr [['''', '''', ''a.txt''], [''4K'', '''', ''b'']]"
  using row_cells [of "config (Some [''size'']) NONE ''linux'' False"
        "[\<lparr>table_row = Some [''name'' \<mapsto> ''a.txt'']\<rparr>, \<lparr>table_row = None\<rparr>,
          \<lparr>table_row = Some [''size'' \<mapsto> ''4K'', ''name'' \<mapsto> ''b'']\<rparr>]"]
  by (auto simp: eval_simps List.map_filter_simps)

text \<open>
  C7. The key git is in the returned sequence exactly when a non-empty detail selection
  is present (detail rendering is enabled), the selection holds the token git or the
  wildcard token, and the directory is under version control.
\<close>

theorem git_column_iff:
  "\<exists>cols. get_columns e = Inr cols \<and>
     ((''git'' \<in> set cols) =
      ((\<exists>ds. args_details e = Some ds \<and> ds \<noteq> [] \<and> (''git'' \<in> set ds \<or> ''+'' \<in> set ds)) \<and>
       is_git_managed e))"
proof -
  let ?kept = "filter (\<lambda>g. g \<noteq> []) (detail_groups e)"
  have "(''git'' \<in> set (with_spacers ?kept @ name_group e)) =
        (\<exists>g\<in>set (detail_groups e). ''git'' \<in> set g)"
    by (simp add: in_with_spacers_kept name_group_def)
  also have "\<dots> =
      ((details_truthy e \<and> column_in_details e ''git'' = Inr True) \<and> is_git_managed e)"
    by (simp add: git_in_detail_groups)
  finally show ?thesis
    unfolding git_requested_iff by (simp add: get_columns_eq)
qed

theorem git_column_iff_witness:
  "map_sum id (\<lambda>cols. ''git'' \<in> set cols)
     (get_columns (config (Some [''git'']) NONE ''linux'' True)) = Inr True \<and>
   map_sum id (\<lambda>cols. ''git'' \<in> set cols)
     (get_columns (config (Some [''+'']) NONE ''linux'' True)) = Inr True \<and>
   map_sum id (\<lambda>cols. ''git'' \<in> set cols)
     (get_columns (config (Some [''size'']) NONE ''linux'' True)) = Inr False \<and>
   map_sum id (\<lambda>cols. ''git'' \<in> set cols)
     (get_columns (config (Some [''git'', ''+'']) NONE ''linux'' False)) = Inr False \<and>
   map_sum id (\<lambda>cols. ''git'' \<in> set cols)
     (get_columns (config None NONE ''linux'' True)) = Inr False"
  using git_column_iff [of "config (Some [''git'']) NONE ''linux'' True"]
    git_column_iff [of "config (Some [''+'']) NONE ''linux'' True"]
    git_column_iff [of "config (Some [''size'']) NONE ''linux'' True"]
    git_column_iff [of "config (Some [''git'', ''+'']) NONE ''linux'' False"]
    git_column_iff [of "config None NONE ''linux'' True"]
  by (simp add: eval_simps)

text \<open>
  C8. A call of the selector on any store returns the sequence the selector computes from
  the configuration, leaves every list object that existed before the call and the
  registry as they were (the store only grows), and a second call on the store left by
  the first returns the same sequence. The sequence does not depend on the alignment
  flag or the export path.
\<close>

theorem get_columns_pure:
  "(\<exists>cols ext ext'. get_columns e = Inr cols \<and>
      get_columns_st e w = Inr (cols, w\<lparr>lists := lists w @ ext\<rparr>) \<and>
      get_columns_st e (w\<lparr>lists := lists w @ ext\<rparr>) =
        Inr (cols, w\<lparr>lists := lists w @ ext @ ext'\<rparr>)) \<and>
   get_columns (e\<lparr>args_no_align := b, args_export := x\<rparr>) = get_columns e"
proof
  let ?cols = "flatten_cols (length (detail_groups e @ [name_group e])) 0
      (detail_groups e @ [name_group e]) []"
  have pure: "get_columns e = Inr ?cols"
    by (simp add: get_columns_def selected_col_groups_eq)
  from get_columns_st_eq [of e w] obtain ext where
    first: "get_columns_st e w = Inr (?cols, w\<lparr>lists := lists w @ ext\<rparr>)" ..
  from get_columns_st_eq [of e "w\<lparr>lists := lists w @ ext\<rparr>"] obtain ext' where
    "get_columns_st e (w\<lparr>lists := lists w @ ext\<rparr>) =
       Inr (?cols, w\<lparr>lists := lists w @ ext, lists := lists (w\<lparr>lists := lists w @ ext\<rparr>) @ ext'\<rparr>)" ..
  then have second: "get_columns_st e (w\<lparr>lists := lists w @ ext\<rparr>) =
       Inr (?cols, w\<lparr>lists := lists w @ ext @ ext'\<rparr>)"
    by simp
  from pure first second
  show "\<exists>cols ext ext'. get_columns e = Inr cols \<and>
      get_columns_st e w = Inr (cols, w\<lparr>lists := lists w @ ext\<rparr>) \<and>
      get_columns_st e (w\<lparr>lists := lists w @ ext\<rparr>) =
        Inr (cols, w\<lparr>lists := lists w @ ext @ ext'\<rparr>)"
    by blast
next
  let ?e' = "e\<lparr>args_no_align := b, args_export := x\<rparr>"
  have cg: "col_groups ?e' = col_groups e" by (simp add: col_groups_def)
  have dg: "detail_groups ?e' = detail_groups e" unfolding detail_groups_def cg by simp
  have ng: "name_group ?e' = name_group e" by (simp add: name_group_def)
  show "get_columns ?e' = get_columns e"
    unfolding get_columns_eq dg ng ..
qed

theorem get_columns_pure_witness:
  "map_sum id fst
     (get_columns_st (config (Some [''size'']) ENABLED ''linux'' False)
        \<lparr>lists = [[''size'']], registry = []\<rparr>) =
     Inr [''size'', ''spacer'', ''icon'', ''name''] \<and>
   map_sum id (\<lambda>r. take 1 (lists (snd r)))
     (get_columns_st (config (Some [''size'']) ENABLED ''linux'' False)
        \<lparr>lists = [[''size'']], registry = []\<rparr>) = Inr [[''size'']] \<and>
   map_sum id (\<lambda>r. registry (snd r))
     (get_columns_st (config (Some [''size'']) ENABLED ''linux'' False)
        \<lparr>lists = [[''size'']], registry = []\<rparr>) = Inr []"
  using get_columns_pure [of "config (Some [''size'']) ENABLED ''linux'' False"
      "\<lparr>lists = [[''size'']], registry = []\<rparr>"]
  by (auto simp: eval_simps)



text \<open>
  C10. Every key the selector returns has an entry in the registry, so the lookup in the
  table assembly never misses: the table gets one column per selected key, in order.
\<close>

theorem selected_keys_registered:
  "\<exists>cols t. get_columns e = Inr cols \<and>
     (\<forall>k\<in>set cols. map_of (column_spec_map e) k \<noteq> None) \<and>
     get_table e = Inr t \<and>
     columns t = map (\<lambda>k. spec_column (the (map_of (column_spec_map e) k))) cols \<and>
     length (columns t) = length cols"
proof -
  obtain cols where cols: "get_columns e = Inr cols" by (simp add: get_columns_eq)
  let ?f = "\<lambda>k. map_option spec_column (map_of (column_spec_map e) k)"
  let ?t = "add_columns (column_spec_map e) cols (new_table (args_details e \<noteq> None))"
  have reg: "\<forall>k\<in>set cols. map_of (column_spec_map e) k \<noteq> None"
    using get_columns_keys [OF cols] registry_lookup [of _ e] by auto
  then have "\<forall>k\<in>set cols. ?f k \<noteq> None" by simp
  from map_filter_all [OF this]
  have "List.map_filter ?f cols = map (\<lambda>k. the (?f k)) cols" .
  also have "\<dots> = map (\<lambda>k. spec_column (the (map_of (column_spec_map e) k))) cols"
    using reg by (intro map_cong) (auto simp: option.map_sel)
  finally have "columns ?t = map (\<lambda>k. spec_column (the (map_of (column_spec_map e) k))) cols"
    by (simp add: add_columns_columns new_table_def)
  moreover have "get_table e = Inr ?t" by (simp add: get_table_def cols)
  ultimately show ?thesis using cols reg by auto
qed

theorem selected_keys_registered_witness:
  "get_columns (config (Some [''type'']) ENABLED ''linux'' False) =
     Inr [''type'', ''spacer'', ''icon'', ''name''] \<and>
   map_of (column_spec_map (config (Some [''type'']) ENABLED ''linux'' False)) ''type'' \<noteq> None \<and>
   map_of (column_spec_map (config (Some [''type'']) ENABLED ''linux'' False)) ''spacer'' \<noteq> None \<and>
   map_of (column_spec_map (config (Some [''type'']) ENABLED ''linux'' False)) ''icon'' \<noteq> None \<and>
   map_of (column_spec_map (config (Some [''type'']) ENABLED ''linux'' False)) ''name'' \<noteq> None \<and>
   map_sum id (\<lambda>t. map col_header (columns t))
     (get_table (config (Some [''type'']) ENABLED ''linux'' False)) =
     Inr ['''', '' '', '''', '' Name'']"
  using selected_keys_registered [of "config (Some [''type'']) ENABLED ''linux'' False"]
  by (auto simp: eval_simps column_spec_map_def spec_of_def spec_column_def make_column_def
      empty_attrs_def)

end
